theory Spec2Isabelle
  imports Main "HOL-Library.Sublist"
begin

section \<open>The task store of todo_app.py\<close>

text \<open>
  A task is the dictionary \<^verbatim>\<open>{'id': ..., 'description': ..., 'completed': ...}\<close> that
  \<^verbatim>\<open>add_task\<close> builds. The key \<^verbatim>\<open>'id'\<close> is the field \<open>task_id\<close> here, since \<open>id\<close>
  is the identity function of HOL. Python integers are unbounded, so the id is an \<open>int\<close>.
\<close>

record task =
  task_id :: int
  description :: string
  completed :: bool

text \<open>
  A \<^verbatim>\<open>TodoApp\<close> object has the two attributes \<^verbatim>\<open>filename\<close> and \<^verbatim>\<open>tasks\<close>. The list
  holds one fresh dictionary per task (built by \<^verbatim>\<open>add_task\<close> or by \<^verbatim>\<open>json.load\<close>), no two
  entries are the same object, so the list of values is the whole state.
\<close>

record todo_app =
  filename :: string
  tasks :: "task list"

text \<open>
  The disk: a path either names no file or a file with its text. Only regular files
  that can be read and written are modelled, so \<^verbatim>\<open>open\<close> itself never fails here.
\<close>

type_synonym filesystem = "string \<rightharpoonup> string"

text \<open>
  \<^verbatim>\<open>json.dump\<close> and \<^verbatim>\<open>json.load\<close> belong to Python's library, not to this program. The
  store's operations take them as parameters: an encoder from task lists to text, and a
  decoder from text.

  What \<^verbatim>\<open>json.load\<close> can return is a JSON value. A string of such a value is a list of
  code points (an escape \<^verbatim>\<open>\uXXXX\<close> can name a code point above 255); a float is kept as
  its text, since the store never computes with one.
\<close>

datatype json =
    JNull
  | JBool bool
  | JInt int
  | JFloat string
  | JString "nat list"
  | JArray "json list"
  | JObject "(nat list \<times> json) list"

text \<open>
  The four outcomes of \<^verbatim>\<open>json.load\<close> on the text of a file:
  \<^item> \<open>Decoded ts\<close>: it returned a list of task dictionaries, the list \<open>ts\<close> of the model;
  \<^item> \<open>DecodedOther v\<close>: it returned the value \<open>v\<close>, which is valid JSON but no list of
    task dictionaries (a number, a dictionary, a list with an entry of another shape);
  \<^item> \<open>JSONDecodeError\<close>: it raised \<^verbatim>\<open>json.JSONDecodeError\<close>;
  \<^item> \<open>OtherError\<close>: it raised an exception of another class (\<^verbatim>\<open>RecursionError\<close> on deep
    nesting, \<^verbatim>\<open>ValueError\<close> on an integer with too many digits).
\<close>

datatype decoded = Decoded "task list" | DecodedOther json | JSONDecodeError | OtherError

text \<open>
  \<^verbatim>\<open>load_tasks\<close> is annotated to return a list of tasks. The two ways in which it does
  not: an exception leaves it (\<open>Uncaught\<close>), or it returns a value \<open>v\<close> that is no list of
  tasks (\<open>NotTasks v\<close>), which the constructor then stores in \<^verbatim>\<open>self.tasks\<close> as it is.
  The operations of the store are modelled on lists of tasks only.
\<close>

datatype other_outcome = Uncaught | NotTasks json

subsection \<open>Loading and saving\<close>

text \<open>
  \<^verbatim>\<open>
  def load_tasks(self) -> List[Dict]:
      if os.path.exists(self.filename):
          try:
              with open(self.filename, 'r') as f:
                  return json.load(f)
          except json.JSONDecodeError:
              return []
      return []
  \<close>
\<close>

definition load_tasks ::
  "(string \<Rightarrow> decoded) \<Rightarrow> filesystem \<Rightarrow> string \<Rightarrow> other_outcome + task list" where
  "load_tasks json_load fs fname =
     (case fs fname of
        Some content \<Rightarrow>
          (case json_load content of
             Decoded ts \<Rightarrow> Inr ts
           | DecodedOther v \<Rightarrow> Inl (NotTasks v)
           | JSONDecodeError \<Rightarrow> Inr []
           | OtherError \<Rightarrow> Inl Uncaught)
      | None \<Rightarrow> Inr [])"

text \<open>The constructor \<^verbatim>\<open>TodoApp(filename)\<close>: it stores the path and loads the list.\<close>

definition init ::
  "(string \<Rightarrow> decoded) \<Rightarrow> filesystem \<Rightarrow> string \<Rightarrow> other_outcome + todo_app" where
  "init json_load fs fname =
     (case load_tasks json_load fs fname of
        Inl e \<Rightarrow> Inl e
      | Inr ts \<Rightarrow> Inr \<lparr>filename = fname, tasks = ts\<rparr>)"

text \<open>\<^verbatim>\<open>save_tasks\<close> opens the file for writing, which replaces its text by the encoded list.\<close>

definition save_tasks :: "(task list \<Rightarrow> string) \<Rightarrow> todo_app \<Rightarrow> filesystem \<Rightarrow> filesystem" where
  "save_tasks json_dump app fs = fs(filename app \<mapsto> json_dump (tasks app))"

subsection \<open>The operations\<close>

text \<open>
  \<^verbatim>\<open>
  def add_task(self, description: str) -> None:
      task = {
          'id': len(self.tasks) + 1,
          'description': description,
          'completed': False
      }
      self.tasks.append(task)
      self.save_tasks()
  \<close>
\<close>

definition add_task ::
  "(task list \<Rightarrow> string) \<Rightarrow> string \<Rightarrow> todo_app \<Rightarrow> filesystem \<Rightarrow> todo_app \<times> filesystem" where
  "add_task json_dump d app fs =
     (let t = \<lparr>task_id = int (length (tasks app)) + 1, description = d, completed = False\<rparr>;
          app' = app\<lparr>tasks := tasks app @ [t]\<rparr>
      in (app', save_tasks json_dump app' fs))"

definition list_tasks :: "todo_app \<Rightarrow> task list" where
  "list_tasks app = tasks app"

text \<open>
  \<^verbatim>\<open>
  def mark_complete(self, task_id: int) -> bool:
      for task in self.tasks:
          if task['id'] == task_id:
              task['completed'] = True
              self.save_tasks()
              return True
      return False
  \<close>
  The loop of \<^verbatim>\<open>mark_complete\<close>: \<open>all\<close> is the whole list, \<open>i\<close> the position of the
  iterator and the last argument the entries not visited yet. The first entry whose id
  matches is updated in place and the loop returns \<^verbatim>\<open>True\<close>; when the entries run
  out, it returns \<^verbatim>\<open>False\<close>.
\<close>

fun mark_complete_loop :: "int \<Rightarrow> task list \<Rightarrow> nat \<Rightarrow> task list \<Rightarrow> bool \<times> task list" where
  "mark_complete_loop tid all i [] = (False, all)"
| "mark_complete_loop tid all i (t # rest) =
     (if task_id t = tid then (True, all[i := t\<lparr>completed := True\<rparr>])
      else mark_complete_loop tid all (Suc i) rest)"

definition mark_complete ::
  "(task list \<Rightarrow> string) \<Rightarrow> int \<Rightarrow> todo_app \<Rightarrow> filesystem \<Rightarrow> bool \<times> todo_app \<times> filesystem" where
  "mark_complete json_dump tid app fs =
     (case mark_complete_loop tid (tasks app) 0 (tasks app) of
        (True, ts') \<Rightarrow> (let app' = app\<lparr>tasks := ts'\<rparr> in (True, app', save_tasks json_dump app' fs))
      | (False, _) \<Rightarrow> (False, app, fs))"

text \<open>
  \<^verbatim>\<open>
  def delete_task(self, task_id: int) -> bool:
      for task in self.tasks:
          if task['id'] == task_id:
              self.tasks.remove(task)
              self.save_tasks()
              return True
      return False
  \<close>
  The loop of \<^verbatim>\<open>delete_task\<close>. \<^verbatim>\<open>self.tasks.remove(task)\<close> removes the first entry of
  the list that is equal to \<^verbatim>\<open>task\<close>, which is \<open>remove1\<close>.
\<close>

fun delete_task_loop :: "int \<Rightarrow> task list \<Rightarrow> task list \<Rightarrow> bool \<times> task list" where
  "delete_task_loop tid all [] = (False, all)"
| "delete_task_loop tid all (t # rest) =
     (if task_id t = tid then (True, remove1 t all)
      else delete_task_loop tid all rest)"

definition delete_task ::
  "(task list \<Rightarrow> string) \<Rightarrow> int \<Rightarrow> todo_app \<Rightarrow> filesystem \<Rightarrow> bool \<times> todo_app \<times> filesystem" where
  "delete_task json_dump tid app fs =
     (case delete_task_loop tid (tasks app) (tasks app) of
        (True, ts') \<Rightarrow> (let app' = app\<lparr>tasks := ts'\<rparr> in (True, app', save_tasks json_dump app' fs))
      | (False, _) \<Rightarrow> (False, app, fs))"

text \<open>
  \<^verbatim>\<open>
  def clear_completed(self) -> None:
      self.tasks = [task for task in self.tasks if not task['completed']]
      self.save_tasks()
  \<close>
\<close>

definition clear_completed ::
  "(task list \<Rightarrow> string) \<Rightarrow> todo_app \<Rightarrow> filesystem \<Rightarrow> todo_app \<times> filesystem" where
  "clear_completed json_dump app fs =
     (let app' = app\<lparr>tasks := filter (\<lambda>t. \<not> completed t) (tasks app)\<rparr>
      in (app', save_tasks json_dump app' fs))"

text \<open>\<^verbatim>\<open>get_stats\<close> returns the pair of \<^verbatim>\<open>'total'\<close> and \<^verbatim>\<open>'completed'\<close>.\<close>

definition get_stats :: "todo_app \<Rightarrow> nat \<times> nat" where
  "get_stats app = (length (tasks app), length (filter completed (tasks app)))"

section \<open>The command loop\<close>

text \<open>
  The strings of the model are lists of 8-bit characters: the character with code \<open>n\<close>
  stands for the Unicode code point \<open>n\<close>, so a line is a Python string whose code points
  are all below 256. The functions below are Python's \<^verbatim>\<open>str.strip\<close>, \<^verbatim>\<open>str.lower\<close>,
  \<^verbatim>\<open>str.startswith\<close> and \<^verbatim>\<open>int\<close> on such strings.

  \<^verbatim>\<open>str.strip()\<close> removes the characters for which \<^verbatim>\<open>str.isspace\<close> holds: below 256 these
  are the codes 9 to 13, 28 to 32, 133 (next line) and 160 (no-break space).
\<close>

definition py_isspace :: "char \<Rightarrow> bool" where
  "py_isspace c = (of_char c \<in> {9, 10, 11, 12, 13, 28, 29, 30, 31, 32, 133, 160 :: nat})"

definition py_strip :: "string \<Rightarrow> string" where
  "py_strip s = rev (dropWhile py_isspace (rev (dropWhile py_isspace s)))"

text \<open>
  \<^verbatim>\<open>str.lower()\<close>: below 256 the upper-case letters are the codes 65 to 90 (A to Z),
  192 to 214 and 216 to 222 (the Latin-1 capitals; 215 is the multiplication sign), and
  the lower-case letter of each is 32 further on. Every other character below 256 is
  left as it is.
\<close>

definition py_lower_char :: "char \<Rightarrow> char" where
  "py_lower_char c =
     (let n = of_char c :: nat in
      if (65 \<le> n \<and> n \<le> 90) \<or> (192 \<le> n \<and> n \<le> 214) \<or> (216 \<le> n \<and> n \<le> 222)
      then char_of (n + 32) else c)"

definition py_lower :: "string \<Rightarrow> string" where
  "py_lower s = map py_lower_char s"

definition startswith :: "string \<Rightarrow> string \<Rightarrow> bool" where
  "startswith s p = (take (length p) s = p)"

definition is_digit :: "char \<Rightarrow> bool" where
  "is_digit c = (let n = of_char c :: nat in 48 \<le> n \<and> n \<le> 57)"

definition digit_value :: "char \<Rightarrow> nat" where
  "digit_value c = of_char c - 48"

definition digits_value :: "string \<Rightarrow> nat" where
  "digits_value ds = foldl (\<lambda>acc c. 10 * acc + digit_value c) 0 ds"

text \<open>
  The digits of an \<^verbatim>\<open>int\<close> literal: at least one digit, single underscores allowed
  between digits.
\<close>

fun int_body_ok :: "string \<Rightarrow> bool" where
  "int_body_ok [] = False"
| "int_body_ok [c] = is_digit c"
| "int_body_ok (c # d # r) =
     (is_digit c \<and> (if d = CHR ''_'' then int_body_ok r else int_body_ok (d # r)))"

text \<open>
  \<^verbatim>\<open>int(s)\<close>: \<open>None\<close> is the exception \<^verbatim>\<open>ValueError\<close>. The white space that \<^verbatim>\<open>int\<close> skips
  around the number is not that of \<^verbatim>\<open>str.strip\<close>: it skips the codes 9 to 13 and 32, and
  133 and 160 (which it first turns into spaces), but not 28 to 31.
\<close>

definition int_isspace :: "char \<Rightarrow> bool" where
  "int_isspace c = (of_char c \<in> {9, 10, 11, 12, 13, 32, 133, 160 :: nat})"

definition py_int :: "string \<Rightarrow> int option" where
  "py_int s =
     (let t = rev (dropWhile int_isspace (rev (dropWhile int_isspace s)));
          neg = (t \<noteq> [] \<and> hd t = CHR ''-'');
          body = (if t \<noteq> [] \<and> (hd t = CHR ''-'' \<or> hd t = CHR ''+'') then tl t else t)
      in if int_body_ok body
         then Some ((if neg then - 1 else 1) * int (digits_value (filter is_digit body)))
         else None)"

text \<open>What one iteration prints, one constructor per \<^verbatim>\<open>print\<close> call.\<close>

datatype printed =
    HelpText
  | TaskAdded
  | NoTasks
  | TaskLine bool int string
  | MarkedComplete
  | TaskNotFound
  | InvalidTaskId
  | TaskDeleted
  | CompletedCleared
  | TotalTasks nat
  | CompletedTasks nat
  | InvalidCommand

text \<open>
  One iteration of the \<^verbatim>\<open>while True\<close> loop of \<^verbatim>\<open>main\<close> on the line that \<^verbatim>\<open>input\<close>
  returned. It starts with
  \<^verbatim>\<open>command = input('\\nEnter command (h for help): ').strip().lower()\<close>
  and goes through the chain of \<^verbatim>\<open>if\<close> and \<^verbatim>\<open>elif\<close> in the order of the source; the
  branch for adding is
  \<^verbatim>\<open>elif command.startswith('a '): app.add_task(command[2:]); print('Task added')\<close>. The result is what was printed, the store, the disk, and whether the loop
  goes on (\<^verbatim>\<open>q\<close> breaks it).
\<close>

definition main_step ::
  "(task list \<Rightarrow> string) \<Rightarrow> string \<Rightarrow> todo_app \<Rightarrow> filesystem
     \<Rightarrow> printed list \<times> todo_app \<times> filesystem \<times> bool" where
  "main_step json_dump line app fs =
     (let command = py_lower (py_strip line) in
      if command = ''h'' then ([HelpText], app, fs, True)
      else if startswith command ''a '' then
        (case add_task json_dump (drop 2 command) app fs of
           (app', fs') \<Rightarrow> ([TaskAdded], app', fs', True))
      else if command = ''l'' then
        ((if list_tasks app = [] then [NoTasks] else [])
           @ map (\<lambda>t. TaskLine (completed t) (task_id t) (description t)) (list_tasks app),
         app, fs, True)
      else if startswith command ''c '' then
        (case py_int (drop 2 command) of
           None \<Rightarrow> ([InvalidTaskId], app, fs, True)
         | Some tid \<Rightarrow>
             (case mark_complete json_dump tid app fs of
                (True, app', fs') \<Rightarrow> ([MarkedComplete], app', fs', True)
              | (False, app', fs') \<Rightarrow> ([TaskNotFound], app', fs', True)))
      else if startswith command ''d '' then
        (case py_int (drop 2 command) of
           None \<Rightarrow> ([InvalidTaskId], app, fs, True)
         | Some tid \<Rightarrow>
             (case delete_task json_dump tid app fs of
                (True, app', fs') \<Rightarrow> ([TaskDeleted], app', fs', True)
              | (False, app', fs') \<Rightarrow> ([TaskNotFound], app', fs', True)))
      else if command = ''x'' then
        (case clear_completed json_dump app fs of
           (app', fs') \<Rightarrow> ([CompletedCleared], app', fs', True))
      else if command = ''s'' then
        (case get_stats app of
           (n_total, n_completed) \<Rightarrow> ([TotalTasks n_total, CompletedTasks n_completed], app, fs, True))
      else if command = ''q'' then ([], app, fs, False)
      else ([InvalidCommand], app, fs, True))"

text \<open>
  The loop itself, on the lines that \<^verbatim>\<open>input\<close> returns one after the other. The last
  component tells how the loop ended: \<open>True\<close> when \<^verbatim>\<open>q\<close> broke it, \<open>False\<close> when the
  input ran out (\<^verbatim>\<open>input\<close> raises \<^verbatim>\<open>EOFError\<close>).
\<close>

fun main_loop ::
  "(task list \<Rightarrow> string) \<Rightarrow> string list \<Rightarrow> todo_app \<Rightarrow> filesystem
     \<Rightarrow> printed list \<times> todo_app \<times> filesystem \<times> bool" where
  "main_loop json_dump [] app fs = ([], app, fs, False)"
| "main_loop json_dump (line # rest) app fs =
     (case main_step json_dump line app fs of
        (out, app', fs', True) \<Rightarrow>
          (case main_loop json_dump rest app' fs' of
             (outs, app'', fs'', quit) \<Rightarrow> (out @ outs, app'', fs'', quit))
      | (out, app', fs', False) \<Rightarrow> (out, app', fs', True))"

text \<open>\<^verbatim>\<open>main\<close>: the store is built on the default path \<^verbatim>\<open>tasks.json\<close>, then the loop runs.\<close>

definition main ::
  "(string \<Rightarrow> decoded) \<Rightarrow> (task list \<Rightarrow> string) \<Rightarrow> string list \<Rightarrow> filesystem
     \<Rightarrow> other_outcome + printed list \<times> todo_app \<times> filesystem \<times> bool" where
  "main json_load json_dump lines fs =
     (case init json_load fs ''tasks.json'' of
        Inl e \<Rightarrow> Inl e
      | Inr app \<Rightarrow> Inr (main_loop json_dump lines app fs))"

section \<open>An encoder and a decoder\<close>

text \<open>
  The text that \<^verbatim>\<open>json.dump\<close> writes for a list of task dictionaries, with its default
  separators and \<^verbatim>\<open>ensure_ascii\<close>:
  \<^verbatim>\<open>[{"id": 1, "description": "Buy milk", "completed": false}]\<close>.
  The character \<open>CHR 0x22\<close> is the double quote and \<open>CHR 0x5C\<close> the backslash.
\<close>

definition digit_char :: "nat \<Rightarrow> char" where
  "digit_char d = char_of (48 + d)"

function show_nat :: "nat \<Rightarrow> string" where
  "show_nat n = (if n < 10 then [digit_char n] else show_nat (n div 10) @ [digit_char (n mod 10)])"
  by pat_completeness auto
termination
  by (relation "measure id") auto

declare show_nat.simps [simp del]

definition show_int :: "int \<Rightarrow> string" where
  "show_int i = (if i < 0 then CHR ''-'' # show_nat (nat (- i)) else show_nat (nat i))"

definition hex_char :: "nat \<Rightarrow> char" where
  "hex_char d = (if d < 10 then char_of (48 + d) else char_of (87 + d))"

definition escape_char :: "char \<Rightarrow> string" where
  "escape_char c =
     (let n = of_char c :: nat in
      if n = 34 then [CHR 0x5C, CHR 0x22]
      else if n = 92 then [CHR 0x5C, CHR 0x5C]
      else if n = 10 then [CHR 0x5C, CHR ''n'']
      else if n = 13 then [CHR 0x5C, CHR ''r'']
      else if n = 9 then [CHR 0x5C, CHR ''t'']
      else if n = 8 then [CHR 0x5C, CHR ''b'']
      else if n = 12 then [CHR 0x5C, CHR ''f'']
      else if n < 32 \<or> 126 < n then
        [CHR 0x5C, CHR ''u'', CHR ''0'', CHR ''0'', hex_char (n div 16), hex_char (n mod 16)]
      else [c])"

definition dump_string :: "string \<Rightarrow> string" where
  "dump_string s = CHR 0x22 # concat (map escape_char s) @ [CHR 0x22]"

definition dump_task :: "task \<Rightarrow> string" where
  "dump_task t =
     [CHR ''{'', CHR 0x22] @ ''id'' @ [CHR 0x22] @ '': '' @ show_int (task_id t)
       @ '', '' @ [CHR 0x22] @ ''description'' @ [CHR 0x22] @ '': '' @ dump_string (description t)
       @ '', '' @ [CHR 0x22] @ ''completed'' @ [CHR 0x22] @ '': ''
       @ (if completed t then ''true'' else ''false'') @ ''}''"

fun join :: "string \<Rightarrow> string list \<Rightarrow> string" where
  "join sep [] = []"
| "join sep [x] = x"
| "join sep (x # y # ys) = x @ sep @ join sep (y # ys)"

definition dump_tasks :: "task list \<Rightarrow> string" where
  "dump_tasks ts = ''['' @ join '', '' (map dump_task ts) @ '']''"

text \<open>
  A decoder for text in that layout: key order and separators as \<^verbatim>\<open>json.dump\<close> writes
  them, no optional white space, characters up to code 255. Text that it rejects is
  reported as \<^verbatim>\<open>json.JSONDecodeError\<close>. \<open>parse_rest\<close> reads the entries after the first one; its
  first argument bounds the number of entries, and the length of the text is enough.
\<close>

definition expect :: "string \<Rightarrow> string \<Rightarrow> string option" where
  "expect lit s = (if take (length lit) s = lit then Some (drop (length lit) s) else None)"

definition parse_nat :: "string \<Rightarrow> (nat \<times> string) option" where
  "parse_nat s =
     (let ds = takeWhile is_digit s in
      if ds = [] \<or> (1 < length ds \<and> hd ds = CHR ''0'') then None
      else Some (digits_value ds, dropWhile is_digit s))"

definition parse_int :: "string \<Rightarrow> (int \<times> string) option" where
  "parse_int s =
     (case s of
        [] \<Rightarrow> None
      | c # r \<Rightarrow>
          if c = CHR ''-'' then map_option (\<lambda>(n, s'). (- int n, s')) (parse_nat r)
          else map_option (\<lambda>(n, s'). (int n, s')) (parse_nat s))"

definition hex_value :: "char \<Rightarrow> nat option" where
  "hex_value c =
     (let n = of_char c :: nat in
      if 48 \<le> n \<and> n \<le> 57 then Some (n - 48)
      else if 97 \<le> n \<and> n \<le> 102 then Some (n - 87)
      else if 65 \<le> n \<and> n \<le> 70 then Some (n - 55)
      else None)"

definition unescape :: "char \<Rightarrow> char option" where
  "unescape e =
     (if e = CHR 0x22 then Some (CHR 0x22)
      else if e = CHR 0x5C then Some (CHR 0x5C)
      else if e = CHR ''/'' then Some (CHR ''/'')
      else if e = CHR ''n'' then Some (CHR 0x0A)
      else if e = CHR ''r'' then Some (CHR 0x0D)
      else if e = CHR ''t'' then Some (CHR 0x09)
      else if e = CHR ''b'' then Some (CHR 0x08)
      else if e = CHR ''f'' then Some (CHR 0x0C)
      else None)"

definition unescape_u :: "char \<Rightarrow> char \<Rightarrow> char \<Rightarrow> char \<Rightarrow> char option" where
  "unescape_u a b c d =
     (case (hex_value a, hex_value b, hex_value c, hex_value d) of
        (Some h3, Some h2, Some h1, Some h0) \<Rightarrow>
          if h3 = 0 \<and> h2 = 0 then Some (char_of (16 * h1 + h0)) else None
      | _ \<Rightarrow> None)"

fun parse_string_chars :: "string \<Rightarrow> (string \<times> string) option" where
  "parse_string_chars [] = None"
| "parse_string_chars (c # cs) =
     (if c = CHR 0x22 then Some ([], cs)
      else if c = CHR 0x5C then
        (case cs of
           [] \<Rightarrow> None
         | e # r \<Rightarrow>
             if e = CHR ''u'' then
               (case r of
                  h1 # h2 # h3 # h4 # r' \<Rightarrow>
                    (case unescape_u h1 h2 h3 h4 of
                       None \<Rightarrow> None
                     | Some ch \<Rightarrow> map_option (\<lambda>(d, s'). (ch # d, s')) (parse_string_chars r'))
                | _ \<Rightarrow> None)
             else
               (case unescape e of
                  None \<Rightarrow> None
                | Some ch \<Rightarrow> map_option (\<lambda>(d, s'). (ch # d, s')) (parse_string_chars r)))
      else if (of_char c :: nat) < 32 then None
      else map_option (\<lambda>(d, s'). (c # d, s')) (parse_string_chars cs))"

definition parse_bool :: "string \<Rightarrow> (bool \<times> string) option" where
  "parse_bool s =
     (case expect ''true'' s of
        Some s' \<Rightarrow> Some (True, s')
      | None \<Rightarrow> (case expect ''false'' s of Some s' \<Rightarrow> Some (False, s') | None \<Rightarrow> None))"

definition parse_task :: "string \<Rightarrow> (task \<times> string) option" where
  "parse_task s =
     (case expect ([CHR ''{'', CHR 0x22] @ ''id'' @ [CHR 0x22] @ '': '') s of
        None \<Rightarrow> None
      | Some s1 \<Rightarrow>
     (case parse_int s1 of
        None \<Rightarrow> None
      | Some (i, s2) \<Rightarrow>
     (case expect ('', '' @ [CHR 0x22] @ ''description'' @ [CHR 0x22] @ '': '' @ [CHR 0x22]) s2 of
        None \<Rightarrow> None
      | Some s3 \<Rightarrow>
     (case parse_string_chars s3 of
        None \<Rightarrow> None
      | Some (d, s4) \<Rightarrow>
     (case expect ('', '' @ [CHR 0x22] @ ''completed'' @ [CHR 0x22] @ '': '') s4 of
        None \<Rightarrow> None
      | Some s5 \<Rightarrow>
     (case parse_bool s5 of
        None \<Rightarrow> None
      | Some (b, s6) \<Rightarrow>
     (case expect ''}'' s6 of
        None \<Rightarrow> None
      | Some s7 \<Rightarrow> Some (\<lparr>task_id = i, description = d, completed = b\<rparr>, s7))))))))"

fun parse_rest :: "nat \<Rightarrow> string \<Rightarrow> task list option" where
  "parse_rest 0 s = None"
| "parse_rest (Suc n) s =
     (if s = '']'' then Some []
      else
        (case expect '', '' s of
           None \<Rightarrow> None
         | Some s1 \<Rightarrow>
             (case parse_task s1 of
                None \<Rightarrow> None
              | Some (t, s2) \<Rightarrow> map_option ((#) t) (parse_rest n s2))))"

definition parse_tasks :: "string \<Rightarrow> decoded" where
  "parse_tasks s =
     (if s = ''[]'' then Decoded []
      else
        (case expect ''['' s of
           None \<Rightarrow> JSONDecodeError
         | Some s1 \<Rightarrow>
             (case parse_task s1 of
                None \<Rightarrow> JSONDecodeError
              | Some (t, s2) \<Rightarrow>
                  (case parse_rest (length s2) s2 of
                     None \<Rightarrow> JSONDecodeError
                   | Some ts \<Rightarrow> Decoded (t # ts)))))"

section \<open>Sequences of operations and the identity of entries\<close>

text \<open>
  A call of one of the four mutating operations, and a sequence of such calls run one
  after the other on the store and the disk.
\<close>

datatype store_op = Add string | Complete int | Delete int | Clear

fun apply_op ::
  "(task list \<Rightarrow> string) \<Rightarrow> store_op \<Rightarrow> todo_app \<times> filesystem \<Rightarrow> todo_app \<times> filesystem" where
  "apply_op json_dump (Add d) (app, fs) = add_task json_dump d app fs"
| "apply_op json_dump (Complete tid) (app, fs) = snd (mark_complete json_dump tid app fs)"
| "apply_op json_dump (Delete tid) (app, fs) = snd (delete_task json_dump tid app fs)"
| "apply_op json_dump Clear (app, fs) = clear_completed json_dump app fs"

definition run_ops ::
  "(task list \<Rightarrow> string) \<Rightarrow> store_op list \<Rightarrow> todo_app \<times> filesystem \<Rightarrow> todo_app \<times> filesystem" where
  "run_ops json_dump ops st = foldl (\<lambda>s op. apply_op json_dump op s) st ops"

text \<open>
  The position of the first entry whose id is \<open>tid\<close> (the length of the list when there
  is none).
\<close>

definition first_match :: "int \<Rightarrow> task list \<Rightarrow> nat" where
  "first_match tid ts = length (takeWhile (\<lambda>t. task_id t \<noteq> tid) ts)"

text \<open>
  The list holds values, so the identity of an entry across an operation is its position:
  \<open>position_after op ts i\<close> is where the entry that stands at position \<open>i\<close> of \<open>ts\<close>
  stands after the operation, or \<open>None\<close> when the operation removes it. Adding and
  completing move nothing; deleting removes the first match and shifts the later entries
  down by one; clearing removes the completed entries and closes the gaps.
\<close>

fun position_after :: "store_op \<Rightarrow> task list \<Rightarrow> nat \<Rightarrow> nat option" where
  "position_after (Add d) ts i = Some i"
| "position_after (Complete tid) ts i = Some i"
| "position_after (Delete tid) ts i =
     (let k = first_match tid ts in
      if i < k then Some i else if i = k then None else Some (i - 1))"
| "position_after Clear ts i =
     (if completed (ts ! i) then None
      else Some (length (filter (\<lambda>t. \<not> completed t) (take i ts))))"

section \<open>A store for the examples\<close>

text \<open>Three entries, two of them with the same id, the first one completed.\<close>

definition example_tasks :: "task list" where
  "example_tasks =
     [\<lparr>task_id = 1, description = ''write'', completed = True\<rparr>,
      \<lparr>task_id = 2, description = ''test'', completed = False\<rparr>,
      \<lparr>task_id = 2, description = ''ship'', completed = False\<rparr>]"

definition example_app :: todo_app where
  "example_app = \<lparr>filename = ''tasks.json'', tasks = example_tasks\<rparr>"

section \<open>The loops find the first match\<close>

lemma mark_complete_loop_no_match:
  "\<forall>t\<in>set rest. task_id t \<noteq> tid \<Longrightarrow> mark_complete_loop tid all i rest = (False, all)"
  by (induction rest arbitrary: i) auto

lemma mark_complete_loop_first_match:
  "\<forall>x\<in>set pre. task_id x \<noteq> tid \<Longrightarrow> task_id t = tid \<Longrightarrow>
   mark_complete_loop tid all i (pre @ t # post) =
     (True, all[i + length pre := t\<lparr>completed := True\<rparr>])"
  by (induction pre arbitrary: i) auto

lemma delete_task_loop_no_match:
  "\<forall>t\<in>set rest. task_id t \<noteq> tid \<Longrightarrow> delete_task_loop tid all rest = (False, all)"
  by (induction rest) auto

lemma delete_task_loop_first_match:
  "\<forall>x\<in>set pre. task_id x \<noteq> tid \<Longrightarrow> task_id t = tid \<Longrightarrow>
   delete_task_loop tid all (pre @ t # post) = (True, remove1 t all)"
  by (induction pre) auto

lemma remove1_first_match:
  "\<forall>x\<in>set pre. task_id x \<noteq> task_id t \<Longrightarrow> remove1 t (pre @ t # post) = pre @ post"
  by (induction pre) auto

lemma first_match_split:
  assumes "\<exists>t\<in>set ts. task_id t = tid"
  obtains pre t post where
    "ts = pre @ t # post" "task_id t = tid" "\<forall>x\<in>set pre. task_id x \<noteq> tid"
proof -
  from assms have "\<exists>t\<in>set ts. (\<lambda>t. task_id t = tid) t" by simp
  from split_list_first_prop[OF this] obtain pre t post
    where "ts = pre @ t # post" "task_id t = tid" "\<forall>x\<in>set pre. task_id x \<noteq> tid" by blast
  then show thesis using that by blast
qed

lemma mark_complete_no_match:
  "\<forall>t\<in>set (tasks app). task_id t \<noteq> tid \<Longrightarrow>
   mark_complete json_dump tid app fs = (False, app, fs)"
  by (simp add: mark_complete_def mark_complete_loop_no_match)

lemma mark_complete_split:
  assumes "tasks app = pre @ t # post" "\<forall>x\<in>set pre. task_id x \<noteq> tid" "task_id t = tid"
  shows "mark_complete json_dump tid app fs =
     (True, app\<lparr>tasks := pre @ t\<lparr>completed := True\<rparr> # post\<rparr>,
      fs(filename app \<mapsto> json_dump (pre @ t\<lparr>completed := True\<rparr> # post)))"
proof -
  have "mark_complete_loop tid (tasks app) 0 (tasks app) =
      (True, (tasks app)[length pre := t\<lparr>completed := True\<rparr>])"
    using mark_complete_loop_first_match[OF assms(2) assms(3), of "tasks app" 0 post] assms(1)
    by simp
  moreover have "(tasks app)[length pre := t\<lparr>completed := True\<rparr>]
      = pre @ t\<lparr>completed := True\<rparr> # post"
    using assms(1) by simp
  ultimately show ?thesis by (simp add: mark_complete_def save_tasks_def)
qed

lemma delete_task_no_match:
  "\<forall>t\<in>set (tasks app). task_id t \<noteq> tid \<Longrightarrow>
   delete_task json_dump tid app fs = (False, app, fs)"
  by (simp add: delete_task_def delete_task_loop_no_match)

lemma delete_task_split:
  assumes "tasks app = pre @ t # post" "\<forall>x\<in>set pre. task_id x \<noteq> tid" "task_id t = tid"
  shows "delete_task json_dump tid app fs =
     (True, app\<lparr>tasks := pre @ post\<rparr>, fs(filename app \<mapsto> json_dump (pre @ post)))"
proof -
  have "delete_task_loop tid (tasks app) (tasks app) = (True, remove1 t (tasks app))"
    using delete_task_loop_first_match[OF assms(2) assms(3), of "tasks app" post] assms(1)
    by simp
  moreover have "remove1 t (tasks app) = pre @ post"
    using assms by (simp add: remove1_first_match)
  ultimately show ?thesis by (simp add: delete_task_def save_tasks_def)
qed

lemma first_match_append:
  "\<forall>x\<in>set pre. task_id x \<noteq> tid \<Longrightarrow> task_id t = tid \<Longrightarrow>
   first_match tid (pre @ t # post) = length pre"
  by (simp add: first_match_def takeWhile_append2)

lemma first_match_none:
  "\<forall>x\<in>set ts. task_id x \<noteq> tid \<Longrightarrow> first_match tid ts = length ts"
  by (induction ts) (auto simp: first_match_def)

text \<open>In the example store the first entry with id 2 stands at position 1.\<close>

lemma example_first_match:
  assumes "k < length (tasks example_app)" "task_id (tasks example_app ! k) = 2"
    "\<forall>j<k. task_id (tasks example_app ! j) \<noteq> 2"
  shows "k = 1"
proof -
  have "k = 0 \<or> k = 1 \<or> k = 2"
    using assms(1) by (auto simp: example_app_def example_tasks_def)
  moreover have "k \<noteq> 0"
  proof
    assume "k = 0"
    with assms(2) show False by (simp add: example_app_def example_tasks_def)
  qed
  moreover have "k \<noteq> 2"
  proof
    assume "k = 2"
    with assms(3) have "task_id (tasks example_app ! 1) \<noteq> 2" by simp
    then show False by (simp add: example_app_def example_tasks_def)
  qed
  ultimately show ?thesis by blast
qed

section \<open>What the operations do to the list\<close>

lemma filter_nth_position:
  assumes "i < length xs" "P (xs ! i)"
  shows "length (filter P (take i xs)) < length (filter P xs)
         \<and> filter P xs ! length (filter P (take i xs)) = xs ! i"
proof -
  have "xs = take i xs @ xs ! i # drop (Suc i) xs"
    using assms(1) by (simp add: id_take_nth_drop)
  then have "filter P xs = filter P (take i xs) @ xs ! i # filter P (drop (Suc i) xs)"
    using assms(2) by (metis filter.simps(2) filter_append)
  then show ?thesis by (simp add: nth_append)
qed

lemma add_task_tasks:
  "tasks (fst (add_task json_dump d app fs)) =
     tasks app @ [\<lparr>task_id = int (length (tasks app)) + 1, description = d, completed = False\<rparr>]"
  by (simp add: add_task_def Let_def)

lemma clear_completed_tasks:
  "tasks (fst (clear_completed json_dump app fs)) = filter (\<lambda>t. \<not> completed t) (tasks app)"
  by (simp add: clear_completed_def Let_def)

section \<open>The decoder reads back what the encoder wrote\<close>

subsection \<open>Integers\<close>

lemma of_char_digit_char: "d < 10 \<Longrightarrow> (of_char (digit_char d) :: nat) = 48 + d"
  by (simp add: digit_char_def)

lemma is_digit_digit_char: "d < 10 \<Longrightarrow> is_digit (digit_char d)"
  by (simp add: is_digit_def of_char_digit_char)

lemma digit_value_digit_char: "d < 10 \<Longrightarrow> digit_value (digit_char d) = d"
  by (simp add: digit_value_def of_char_digit_char)

lemma show_nat_small: "n < 10 \<Longrightarrow> show_nat n = [digit_char n]"
  by (subst show_nat.simps) simp

lemma show_nat_large:
  "\<not> n < 10 \<Longrightarrow> show_nat n = show_nat (n div 10) @ [digit_char (n mod 10)]"
  by (subst show_nat.simps) simp

lemma show_nat_digits: "\<forall>c\<in>set (show_nat n). is_digit c"
proof (induction n rule: show_nat.induct)
  case (1 n)
  show ?case
  proof (cases "n < 10")
    case True
    then show ?thesis by (simp add: show_nat_small is_digit_digit_char)
  next
    case False
    with 1 show ?thesis by (simp add: show_nat_large is_digit_digit_char)
  qed
qed

lemma show_nat_nonempty: "show_nat n \<noteq> []"
  by (cases "n < 10") (simp_all add: show_nat_small show_nat_large)

lemma digits_value_snoc: "digits_value (ds @ [c]) = 10 * digits_value ds + digit_value c"
  by (simp add: digits_value_def)

lemma digits_value_show_nat: "digits_value (show_nat n) = n"
proof (induction n rule: show_nat.induct)
  case (1 n)
  show ?case
  proof (cases "n < 10")
    case True
    then show ?thesis by (simp add: show_nat_small digits_value_def digit_value_digit_char)
  next
    case False
    with 1 have "digits_value (show_nat (n div 10)) = n div 10" by simp
    with False show ?thesis
      by (simp add: show_nat_large digits_value_snoc digit_value_digit_char)
  qed
qed

lemma show_nat_leading_zero:
  "hd (show_nat n) = CHR ''0'' \<Longrightarrow> length (show_nat n) = 1"
proof (induction n rule: show_nat.induct)
  case (1 n)
  show ?case
  proof (cases "n < 10")
    case True
    then show ?thesis by (simp add: show_nat_small)
  next
    case False
    then have s: "show_nat n = show_nat (n div 10) @ [digit_char (n mod 10)]"
      by (rule show_nat_large)
    with "1.prems" have "hd (show_nat (n div 10)) = CHR ''0''"
      by (simp add: show_nat_nonempty)
    with 1 False have "length (show_nat (n div 10)) = 1" by simp
    then obtain c where c: "show_nat (n div 10) = [c]"
      by (cases "show_nat (n div 10)") auto
    with \<open>hd (show_nat (n div 10)) = CHR ''0''\<close> have "show_nat (n div 10) = ''0''" by simp
    then have "digits_value (show_nat (n div 10)) = 0"
      by (simp add: digits_value_def digit_value_def)
    then have "n div 10 = 0" by (simp add: digits_value_show_nat)
    with False show ?thesis by simp
  qed
qed

lemma parse_nat_show_nat:
  assumes "rest = [] \<or> \<not> is_digit (hd rest)"
  shows "parse_nat (show_nat n @ rest) = Some (n, rest)"
proof -
  have r: "takeWhile is_digit rest = []" "dropWhile is_digit rest = rest"
    using assms by (cases rest; auto)+
  have tw: "takeWhile is_digit (show_nat n @ rest) = show_nat n"
    using show_nat_digits[of n] r by (simp add: takeWhile_append2)
  have dw: "dropWhile is_digit (show_nat n @ rest) = rest"
    using show_nat_digits[of n] r by (simp add: dropWhile_append2)
  have "\<not> (1 < length (show_nat n) \<and> hd (show_nat n) = CHR ''0'')"
    using show_nat_leading_zero[of n] by auto
  then show ?thesis
    unfolding parse_nat_def tw dw Let_def
    by (simp add: show_nat_nonempty digits_value_show_nat)
qed

lemma hd_show_nat_not_minus: "hd (show_nat n) \<noteq> CHR ''-''"
proof -
  have "hd (show_nat n) \<in> set (show_nat n)" by (simp add: show_nat_nonempty)
  then have "is_digit (hd (show_nat n))" using show_nat_digits by blast
  then show ?thesis by (auto simp: is_digit_def)
qed

lemma parse_int_show_int:
  assumes "rest = [] \<or> \<not> is_digit (hd rest)"
  shows "parse_int (show_int i @ rest) = Some (i, rest)"
proof (cases "i < 0")
  case True
  then show ?thesis
    by (simp add: parse_int_def show_int_def parse_nat_show_nat[OF assms])
next
  case False
  obtain c cs where cs: "show_nat (nat i) = c # cs"
    using show_nat_nonempty[of "nat i"] by (cases "show_nat (nat i)") auto
  then have "c \<noteq> CHR ''-''" using hd_show_nat_not_minus[of "nat i"] by simp
  moreover have "parse_nat (c # cs @ rest) = Some (nat i, rest)"
    using parse_nat_show_nat[OF assms, of "nat i"] cs by simp
  ultimately show ?thesis using False cs
    by (simp add: parse_int_def show_int_def)
qed

subsection \<open>Strings\<close>

lemma char_eq_code: "c = d \<longleftrightarrow> (of_char c :: nat) = of_char d"
  by (simp add: of_char_eq_iff)

lemma of_char_less_256: "(of_char c :: nat) < 256"
  by (metis of_char_mod_256 mod_less_divisor zero_less_numeral)

lemma hex_value_hex_char: "d < 16 \<Longrightarrow> hex_value (hex_char d) = Some d"
  by (auto simp: hex_value_def hex_char_def Let_def)

lemma unescape_u_hex:
  "unescape_u (CHR ''0'') (CHR ''0'') (hex_char (of_char c div 16)) (hex_char (of_char c mod 16))
     = Some c"
proof -
  have d: "(of_char c :: nat) div 16 < 16" using of_char_less_256[of c] by arith
  have z: "hex_value (CHR ''0'') = Some 0" by (simp add: hex_value_def)
  show ?thesis
    by (simp add: unescape_u_def z hex_value_hex_char d)
qed

lemma parse_string_chars_escape:
  "parse_string_chars (escape_char c @ rest) =
     map_option (\<lambda>(d, s'). (c # d, s')) (parse_string_chars rest)"
proof -
  consider "(of_char c :: nat) = 34" | "(of_char c :: nat) = 92" | "(of_char c :: nat) = 10"
    | "(of_char c :: nat) = 13" | "(of_char c :: nat) = 9" | "(of_char c :: nat) = 8"
    | "(of_char c :: nat) = 12"
    | "(of_char c :: nat) \<notin> {34, 92, 10, 13, 9, 8, 12}"
      "(of_char c :: nat) < 32 \<or> 126 < (of_char c :: nat)"
    | "(of_char c :: nat) \<notin> {34, 92, 10, 13, 9, 8, 12}"
      "32 \<le> (of_char c :: nat)" "(of_char c :: nat) \<le> 126"
    by fastforce
  then show ?thesis
  proof cases
    case 1
    then have "c = CHR 0x22" by (simp add: char_eq_code)
    then show ?thesis by (simp add: escape_char_def unescape_def)
  next
    case 2
    then have "c = CHR 0x5C" by (simp add: char_eq_code)
    then show ?thesis by (simp add: escape_char_def unescape_def)
  next
    case 3
    then have "c = CHR 0x0A" by (simp add: char_eq_code)
    then show ?thesis by (simp add: escape_char_def unescape_def)
  next
    case 4
    then have "c = CHR 0x0D" by (simp add: char_eq_code)
    then show ?thesis by (simp add: escape_char_def unescape_def)
  next
    case 5
    then have "c = CHR 0x09" by (simp add: char_eq_code)
    then show ?thesis by (simp add: escape_char_def unescape_def)
  next
    case 6
    then have "c = CHR 0x08" by (simp add: char_eq_code)
    then show ?thesis by (simp add: escape_char_def unescape_def)
  next
    case 7
    then have "c = CHR 0x0C" by (simp add: char_eq_code)
    then show ?thesis by (simp add: escape_char_def unescape_def)
  next
    case 8
    then have "escape_char c = [CHR 0x5C, CHR ''u'', CHR ''0'', CHR ''0'',
        hex_char (of_char c div 16), hex_char (of_char c mod 16)]"
      by (auto simp: escape_char_def Let_def)
    then show ?thesis by (simp add: unescape_u_hex)
  next
    case 9
    then have e: "escape_char c = [c]" by (auto simp: escape_char_def Let_def)
    from 9 have "c \<noteq> CHR 0x22" "c \<noteq> CHR 0x5C" by (auto simp: char_eq_code)
    with 9 e show ?thesis by simp
  qed
qed

lemma parse_string_chars_dump:
  "parse_string_chars (concat (map escape_char s) @ CHR 0x22 # rest) = Some (s, rest)"
proof (induction s)
  case Nil
  show ?case by simp
next
  case (Cons c s)
  have "parse_string_chars (concat (map escape_char (c # s)) @ CHR 0x22 # rest)
      = parse_string_chars (escape_char c @ (concat (map escape_char s) @ CHR 0x22 # rest))"
    by simp
  also have "\<dots> = map_option (\<lambda>(d, s'). (c # d, s'))
      (parse_string_chars (concat (map escape_char s) @ CHR 0x22 # rest))"
    by (rule parse_string_chars_escape)
  also have "\<dots> = Some (c # s, rest)" using Cons by simp
  finally show ?case .
qed

subsection \<open>Entries and lists\<close>

lemma expect_append: "expect lit (lit @ s) = Some s"
  by (simp add: expect_def)

lemma parse_bool_dump:
  "parse_bool ((if b then ''true'' else ''false'') @ rest) = Some (b, rest)"
proof (cases b)
  case True
  then show ?thesis using expect_append[of "''true''" rest] by (simp add: parse_bool_def)
next
  case False
  have "expect ''true'' (''false'' @ rest) = None" by (simp add: expect_def)
  with False show ?thesis using expect_append[of "''false''" rest] by (simp add: parse_bool_def)
qed

lemma parse_task_dump: "parse_task (dump_task t @ rest) = Some (t, rest)"
proof -
  let ?k1 = "[CHR ''{'', CHR 0x22] @ ''id'' @ [CHR 0x22] @ '': ''"
  let ?k2 = "'', '' @ [CHR 0x22] @ ''description'' @ [CHR 0x22] @ '': '' @ [CHR 0x22]"
  let ?k3 = "'', '' @ [CHR 0x22] @ ''completed'' @ [CHR 0x22] @ '': ''"
  let ?b = "if completed t then ''true'' else ''false''"
  let ?s6 = "''}'' @ rest"
  let ?s5 = "?b @ ?s6"
  let ?s4 = "?k3 @ ?s5"
  let ?s3 = "concat (map escape_char (description t)) @ CHR 0x22 # ?s4"
  let ?s2 = "?k2 @ ?s3"
  let ?s1 = "show_int (task_id t) @ ?s2"
  have whole: "dump_task t @ rest = ?k1 @ ?s1"
    by (simp add: dump_task_def dump_string_def)
  have e1: "expect ?k1 (?k1 @ ?s1) = Some ?s1" by (rule expect_append)
  have "?s2 = [] \<or> \<not> is_digit (hd ?s2)" by (simp add: is_digit_def)
  then have e2: "parse_int ?s1 = Some (task_id t, ?s2)" by (rule parse_int_show_int)
  have e3: "expect ?k2 ?s2 = Some ?s3" by (rule expect_append)
  have e4: "parse_string_chars ?s3 = Some (description t, ?s4)"
    by (rule parse_string_chars_dump)
  have e5: "expect ?k3 ?s4 = Some ?s5" by (rule expect_append)
  have e6: "parse_bool ?s5 = Some (completed t, ?s6)" by (rule parse_bool_dump)
  have e7: "expect ''}'' ?s6 = Some rest" by (rule expect_append)
  show ?thesis
    unfolding whole parse_task_def e1 option.case e2 prod.case e3 e4 e5 e6 e7
    by simp
qed

lemma dump_task_starts: "\<exists>s. dump_task t = CHR ''{'' # s"
  by (simp add: dump_task_def)

lemma join_dump_tasks:
  "join '', '' (map dump_task (t # ts)) =
     dump_task t @ concat (map (\<lambda>t. '', '' @ dump_task t) ts)"
  by (induction ts arbitrary: t) simp_all

lemma parse_rest_dump:
  "length ts < n \<Longrightarrow>
   parse_rest n (concat (map (\<lambda>t. '', '' @ dump_task t) ts) @ '']'') = Some ts"
proof (induction ts arbitrary: n)
  case Nil
  then obtain m where "n = Suc m" by (cases n) auto
  then show ?case by simp
next
  case (Cons t ts)
  then obtain m where n: "n = Suc m" and m: "length ts < m" by (cases n) auto
  let ?tail = "concat (map (\<lambda>t. '', '' @ dump_task t) ts) @ '']''"
  have s: "concat (map (\<lambda>t. '', '' @ dump_task t) (t # ts)) @ '']''
      = '', '' @ dump_task t @ ?tail" by simp
  have ne: "'', '' @ dump_task t @ ?tail \<noteq> '']''" by simp
  have e: "expect '', '' ('', '' @ dump_task t @ ?tail) = Some (dump_task t @ ?tail)"
    by (rule expect_append)
  have p: "parse_task (dump_task t @ ?tail) = Some (t, ?tail)" by (rule parse_task_dump)
  have r: "parse_rest m ?tail = Some ts" using m by (rule Cons.IH)
  show ?case unfolding s n parse_rest.simps using ne e p r by simp
qed

lemma length_dump_tail:
  "length ts < length (concat (map (\<lambda>t. '', '' @ dump_task t) ts) @ '']'')"
  by (induction ts) auto

lemma parse_dump_tasks: "parse_tasks (dump_tasks ts) = Decoded ts"
proof (cases ts)
  case Nil
  then show ?thesis by (simp add: parse_tasks_def dump_tasks_def)
next
  case (Cons t ts')
  let ?tail = "concat (map (\<lambda>t. '', '' @ dump_task t) ts') @ '']''"
  have d: "dump_tasks ts = ''['' @ dump_task t @ ?tail"
    using Cons join_dump_tasks[of t ts'] by (simp add: dump_tasks_def)
  obtain s where s: "dump_task t = CHR ''{'' # s" using dump_task_starts by blast
  have ne: "''['' @ dump_task t @ ?tail \<noteq> ''[]''" using s by simp
  have e: "expect ''['' (''['' @ dump_task t @ ?tail) = Some (dump_task t @ ?tail)"
    by (rule expect_append)
  have p: "parse_task (dump_task t @ ?tail) = Some (t, ?tail)" by (rule parse_task_dump)
  have r: "parse_rest (length ?tail) ?tail = Some ts'"
    using length_dump_tail by (rule parse_rest_dump)
  show ?thesis unfolding d parse_tasks_def using ne e p r Cons by simp
qed

section \<open>The positions account for every entry\<close>

text \<open>
  \<open>position_after\<close> keeps the order of the entries, and every entry of the list after an
  operation is an entry of the list before it or the one entry that \<^verbatim>\<open>add_task\<close> appended.
\<close>

lemma filter_position_exists:
  "j < length (filter P xs) \<Longrightarrow>
   \<exists>i<length xs. P (xs ! i) \<and> j = length (filter P (take i xs))"
proof (induction xs rule: rev_induct)
  case Nil
  then show ?case by simp
next
  case (snoc x xs)
  show ?case
  proof (cases "j < length (filter P xs)")
    case True
    with snoc.IH obtain i where "i < length xs" "P (xs ! i)"
      "j = length (filter P (take i xs))" by blast
    then show ?thesis by (auto simp: nth_append intro!: exI[of _ i])
  next
    case False
    with snoc.prems have "P x" "j = length (filter P xs)" by (auto split: if_splits)
    then show ?thesis by (auto intro!: exI[of _ "length xs"])
  qed
qed

lemma filter_position_mono:
  assumes "i < i'" "i' \<le> length xs" "P (xs ! i)"
  shows "length (filter P (take i xs)) < length (filter P (take i' xs))"
proof -
  have i: "i < length (take i' xs)" using assms by simp
  have "take i' xs = take i (take i' xs) @ take i' xs ! i # drop (Suc i) (take i' xs)"
    by (rule id_take_nth_drop[OF i])
  moreover have "take i (take i' xs) = take i xs" using assms by (simp add: min_def)
  moreover have "take i' xs ! i = xs ! i" using assms by simp
  ultimately have "take i' xs = take i xs @ xs ! i # drop (Suc i) (take i' xs)" by simp
  then have "filter P (take i' xs)
      = filter P (take i xs) @ xs ! i # filter P (drop (Suc i) (take i' xs))"
    using assms(3) by (metis filter.simps(2) filter_append)
  then show ?thesis by simp
qed

lemma position_after_mono:
  assumes "i < i'" "i' < length ts"
    "position_after op ts i = Some j" "position_after op ts i' = Some j'"
  shows "j < j'"
proof (cases op)
  case (Add d)
  with assms show ?thesis by simp
next
  case (Complete tid)
  with assms show ?thesis by simp
next
  case (Delete tid)
  with assms show ?thesis by (auto simp: Let_def split: if_splits)
next
  case Clear
  with assms have "\<not> completed (ts ! i)"
    "j = length (filter (\<lambda>t. \<not> completed t) (take i ts))"
    "j' = length (filter (\<lambda>t. \<not> completed t) (take i' ts))"
    by (auto split: if_splits)
  with assms(1,2) filter_position_mono[of i i' ts "\<lambda>t. \<not> completed t"]
  show ?thesis by simp
qed

lemma position_after_covers:
  assumes "j < length (tasks (fst (apply_op json_dump op (app, fs))))"
  shows "(\<exists>i<length (tasks app). position_after op (tasks app) i = Some j)
         \<or> (\<exists>d. op = Add d \<and> j = length (tasks app))"
proof (cases op)
  case (Add d)
  with assms have "j < Suc (length (tasks app))" by (simp add: add_task_tasks)
  with Add show ?thesis by (cases "j < length (tasks app)") auto
next
  case (Complete tid)
  show ?thesis
  proof (cases "\<exists>t\<in>set (tasks app). task_id t = tid")
    case True
    then obtain pre t post where sp: "tasks app = pre @ t # post" "task_id t = tid"
      "\<forall>x\<in>set pre. task_id x \<noteq> tid" by (rule first_match_split)
    have "tasks (fst (snd (mark_complete json_dump tid app fs)))
        = pre @ t\<lparr>completed := True\<rparr> # post"
      by (simp add: mark_complete_split[OF sp(1) sp(3) sp(2)])
    with assms Complete sp(1) show ?thesis by simp
  next
    case False
    then have "mark_complete json_dump tid app fs = (False, app, fs)"
      by (intro mark_complete_no_match) simp
    with assms Complete show ?thesis by simp
  qed
next
  case (Delete tid)
  show ?thesis
  proof (cases "\<exists>t\<in>set (tasks app). task_id t = tid")
    case True
    then obtain pre t post where sp: "tasks app = pre @ t # post" "task_id t = tid"
      "\<forall>x\<in>set pre. task_id x \<noteq> tid" by (rule first_match_split)
    have k: "first_match tid (tasks app) = length pre"
      using sp by (simp add: first_match_append)
    have "tasks (fst (snd (delete_task json_dump tid app fs))) = pre @ post"
      by (simp add: delete_task_split[OF sp(1) sp(3) sp(2)])
    with assms Delete have j: "j < length pre + length post" by simp
    show ?thesis
    proof (cases "j < length pre")
      case True
      with Delete k sp(1) have "j < length (tasks app)"
        "position_after op (tasks app) j = Some j" by simp_all
      then show ?thesis by blast
    next
      case False
      with Delete k sp(1) j have "Suc j < length (tasks app)"
        "position_after op (tasks app) (Suc j) = Some j" by simp_all
      then show ?thesis by blast
    qed
  next
    case False
    then have none: "\<forall>x\<in>set (tasks app). task_id x \<noteq> tid" by simp
    then have k: "first_match tid (tasks app) = length (tasks app)" by (rule first_match_none)
    have "delete_task json_dump tid app fs = (False, app, fs)"
      using none by (rule delete_task_no_match)
    with assms Delete k have "j < length (tasks app)"
      "position_after op (tasks app) j = Some j" by simp_all
    then show ?thesis by blast
  qed
next
  case Clear
  with assms have "j < length (filter (\<lambda>t. \<not> completed t) (tasks app))"
    by (simp add: clear_completed_tasks)
  from filter_position_exists[OF this] Clear show ?thesis by auto
qed

section \<open>The claims\<close>

text \<open>
  Claim C1. For every store, disk and description (the empty one included), \<^verbatim>\<open>add_task\<close>
  appends exactly one entry at the end of the list: its id is the length of the list
  before the call plus 1, it is not completed, and its description is the given string.
  The list grows by exactly one entry, the earlier entries are untouched, and the new
  list is saved.
\<close>

theorem add_task_appends:
  "add_task json_dump d app fs =
     (app\<lparr>tasks := tasks app @
        [\<lparr>task_id = int (length (tasks app)) + 1, description = d, completed = False\<rparr>]\<rparr>,
      fs(filename app \<mapsto> json_dump (tasks app @
        [\<lparr>task_id = int (length (tasks app)) + 1, description = d, completed = False\<rparr>])))
   \<and> length (list_tasks (fst (add_task json_dump d app fs))) = length (list_tasks app) + 1
   \<and> last (list_tasks (fst (add_task json_dump d app fs))) =
       \<lparr>task_id = int (length (list_tasks app)) + 1, description = d, completed = False\<rparr>
   \<and> butlast (list_tasks (fst (add_task json_dump d app fs))) = list_tasks app"
  by (simp add: add_task_def save_tasks_def list_tasks_def Let_def)

text \<open>
  Claim C2. \<^verbatim>\<open>mark_complete\<close> returns \<^verbatim>\<open>True\<close> exactly when some entry has the given id.
  Then it sets \<open>completed\<close> on the first such entry (position \<open>k\<close>, with no match before
  it), changes no other entry and no other field, and saves. When no entry matches it
  returns \<^verbatim>\<open>False\<close> and leaves the store and the disk as they were.
\<close>

theorem mark_complete_first_match:
  "(fst (mark_complete json_dump tid app fs) \<longleftrightarrow> (\<exists>t\<in>set (tasks app). task_id t = tid))
   \<and> ((\<exists>t\<in>set (tasks app). task_id t = tid) \<longrightarrow>
        (\<exists>k<length (tasks app).
           task_id (tasks app ! k) = tid \<and> (\<forall>j<k. task_id (tasks app ! j) \<noteq> tid)
           \<and> mark_complete json_dump tid app fs =
               (True,
                app\<lparr>tasks := (tasks app)[k := (tasks app ! k)\<lparr>completed := True\<rparr>]\<rparr>,
                fs(filename app \<mapsto>
                  json_dump ((tasks app)[k := (tasks app ! k)\<lparr>completed := True\<rparr>])))))
   \<and> (\<not> (\<exists>t\<in>set (tasks app). task_id t = tid) \<longrightarrow>
        mark_complete json_dump tid app fs = (False, app, fs))"
proof (cases "\<exists>t\<in>set (tasks app). task_id t = tid")
  case True
  then obtain pre t post where sp: "tasks app = pre @ t # post" "task_id t = tid"
    "\<forall>x\<in>set pre. task_id x \<noteq> tid" by (rule first_match_split)
  have k: "length pre < length (tasks app)" "tasks app ! length pre = t"
    using sp(1) by simp_all
  have before: "\<forall>j<length pre. task_id (tasks app ! j) \<noteq> tid"
    using sp(1) sp(3) by (simp add: nth_append)
  have upd: "(tasks app)[length pre := (tasks app ! length pre)\<lparr>completed := True\<rparr>]
      = pre @ t\<lparr>completed := True\<rparr> # post"
    using sp(1) by simp
  have res: "mark_complete json_dump tid app fs =
      (True,
       app\<lparr>tasks := (tasks app)[length pre := (tasks app ! length pre)\<lparr>completed := True\<rparr>]\<rparr>,
       fs(filename app \<mapsto>
         json_dump ((tasks app)[length pre := (tasks app ! length pre)\<lparr>completed := True\<rparr>])))"
    unfolding upd by (rule mark_complete_split[OF sp(1) sp(3) sp(2)])
  show ?thesis using True k before res sp(2) by auto
next
  case False
  then have "mark_complete json_dump tid app fs = (False, app, fs)"
    by (intro mark_complete_no_match) simp
  with False show ?thesis by simp
qed

theorem mark_complete_first_match_witness:
  "(\<exists>t\<in>set (tasks example_app). task_id t = 2)
   \<and> mark_complete dump_tasks 2 example_app Map.empty =
       (True,
        example_app\<lparr>tasks := (tasks example_app)[1 := (tasks example_app ! 1)\<lparr>completed := True\<rparr>]\<rparr>,
        [filename example_app \<mapsto>
           dump_tasks ((tasks example_app)[1 := (tasks example_app ! 1)\<lparr>completed := True\<rparr>])])
   \<and> \<not> (\<exists>t\<in>set (tasks example_app). task_id t = 7)
   \<and> mark_complete dump_tasks 7 example_app Map.empty = (False, example_app, Map.empty)"
proof -
  have h: "\<exists>t\<in>set (tasks example_app). task_id t = 2"
    by (simp add: example_app_def example_tasks_def)
  have n: "\<not> (\<exists>t\<in>set (tasks example_app). task_id t = 7)"
    by (simp add: example_app_def example_tasks_def)
  from mark_complete_first_match[of dump_tasks 2 example_app Map.empty] h
  obtain k where k: "k < length (tasks example_app)" "task_id (tasks example_app ! k) = 2"
      "\<forall>j<k. task_id (tasks example_app ! j) \<noteq> 2"
    and res: "mark_complete dump_tasks 2 example_app Map.empty =
       (True,
        example_app\<lparr>tasks := (tasks example_app)[k := (tasks example_app ! k)\<lparr>completed := True\<rparr>]\<rparr>,
        [filename example_app \<mapsto>
           dump_tasks ((tasks example_app)[k := (tasks example_app ! k)\<lparr>completed := True\<rparr>])])"
    by blast
  have "k = 1" using k by (rule example_first_match)
  with res have found: "mark_complete dump_tasks 2 example_app Map.empty =
       (True,
        example_app\<lparr>tasks := (tasks example_app)[1 := (tasks example_app ! 1)\<lparr>completed := True\<rparr>]\<rparr>,
        [filename example_app \<mapsto>
           dump_tasks ((tasks example_app)[1 := (tasks example_app ! 1)\<lparr>completed := True\<rparr>])])"
    by simp
  from mark_complete_first_match[of dump_tasks 7 example_app Map.empty] n
  have missing: "mark_complete dump_tasks 7 example_app Map.empty = (False, example_app, Map.empty)"
    by blast
  show ?thesis using h n found missing by blast
qed

text \<open>
  Claim C3. \<^verbatim>\<open>delete_task\<close> returns \<^verbatim>\<open>True\<close> exactly when some entry has the given id.
  Then it removes the first such entry (position \<open>k\<close>, with no match before it): the
  entries before and after it stay, unmodified and in their order, and the list is saved.
  When no entry matches it returns \<^verbatim>\<open>False\<close> and leaves the store and the disk as they
  were.
\<close>

theorem delete_task_first_match:
  "(fst (delete_task json_dump tid app fs) \<longleftrightarrow> (\<exists>t\<in>set (tasks app). task_id t = tid))
   \<and> ((\<exists>t\<in>set (tasks app). task_id t = tid) \<longrightarrow>
        (\<exists>k<length (tasks app).
           task_id (tasks app ! k) = tid \<and> (\<forall>j<k. task_id (tasks app ! j) \<noteq> tid)
           \<and> delete_task json_dump tid app fs =
               (True,
                app\<lparr>tasks := take k (tasks app) @ drop (Suc k) (tasks app)\<rparr>,
                fs(filename app \<mapsto> json_dump (take k (tasks app) @ drop (Suc k) (tasks app))))))
   \<and> (\<not> (\<exists>t\<in>set (tasks app). task_id t = tid) \<longrightarrow>
        delete_task json_dump tid app fs = (False, app, fs))"
proof (cases "\<exists>t\<in>set (tasks app). task_id t = tid")
  case True
  then obtain pre t post where sp: "tasks app = pre @ t # post" "task_id t = tid"
    "\<forall>x\<in>set pre. task_id x \<noteq> tid" by (rule first_match_split)
  have k: "length pre < length (tasks app)" "tasks app ! length pre = t"
    using sp(1) by simp_all
  have before: "\<forall>j<length pre. task_id (tasks app ! j) \<noteq> tid"
    using sp(1) sp(3) by (simp add: nth_append)
  have cut: "take (length pre) (tasks app) @ drop (Suc (length pre)) (tasks app) = pre @ post"
    using sp(1) by simp
  have res: "delete_task json_dump tid app fs =
      (True,
       app\<lparr>tasks := take (length pre) (tasks app) @ drop (Suc (length pre)) (tasks app)\<rparr>,
       fs(filename app \<mapsto>
         json_dump (take (length pre) (tasks app) @ drop (Suc (length pre)) (tasks app))))"
    unfolding cut by (rule delete_task_split[OF sp(1) sp(3) sp(2)])
  show ?thesis using True k before res sp(2) by auto
next
  case False
  then have "delete_task json_dump tid app fs = (False, app, fs)"
    by (intro delete_task_no_match) simp
  with False show ?thesis by simp
qed

theorem delete_task_first_match_witness:
  "(\<exists>t\<in>set (tasks example_app). task_id t = 2)
   \<and> delete_task dump_tasks 2 example_app Map.empty =
       (True,
        example_app\<lparr>tasks := take 1 (tasks example_app) @ drop 2 (tasks example_app)\<rparr>,
        [filename example_app \<mapsto>
           dump_tasks (take 1 (tasks example_app) @ drop 2 (tasks example_app))])
   \<and> \<not> (\<exists>t\<in>set (tasks example_app). task_id t = 7)
   \<and> delete_task dump_tasks 7 example_app Map.empty = (False, example_app, Map.empty)"
proof -
  have h: "\<exists>t\<in>set (tasks example_app). task_id t = 2"
    by (simp add: example_app_def example_tasks_def)
  have n: "\<not> (\<exists>t\<in>set (tasks example_app). task_id t = 7)"
    by (simp add: example_app_def example_tasks_def)
  from delete_task_first_match[of dump_tasks 2 example_app Map.empty] h
  obtain k where k: "k < length (tasks example_app)" "task_id (tasks example_app ! k) = 2"
      "\<forall>j<k. task_id (tasks example_app ! j) \<noteq> 2"
    and res: "delete_task dump_tasks 2 example_app Map.empty =
       (True,
        example_app\<lparr>tasks := take k (tasks example_app) @ drop (Suc k) (tasks example_app)\<rparr>,
        [filename example_app \<mapsto>
           dump_tasks (take k (tasks example_app) @ drop (Suc k) (tasks example_app))])"
    by blast
  have "k = 1" using k by (rule example_first_match)
  with res have found: "delete_task dump_tasks 2 example_app Map.empty =
       (True,
        example_app\<lparr>tasks := take 1 (tasks example_app) @ drop 2 (tasks example_app)\<rparr>,
        [filename example_app \<mapsto>
           dump_tasks (take 1 (tasks example_app) @ drop 2 (tasks example_app))])"
    by (simp add: numeral_2_eq_2)
  from delete_task_first_match[of dump_tasks 7 example_app Map.empty] n
  have missing: "delete_task dump_tasks 7 example_app Map.empty = (False, example_app, Map.empty)"
    by blast
  show ?thesis using h n found missing by blast
qed

text \<open>
  Claim C4. \<^verbatim>\<open>clear_completed\<close> replaces the list by its entries that are not completed,
  in their order and unmodified (a subsequence of the old list), and saves it. No
  completed entry is left, and every entry that is not completed occurs as often as
  before.
\<close>

theorem clear_completed_keeps_open:
  "clear_completed json_dump app fs =
     (app\<lparr>tasks := filter (\<lambda>t. \<not> completed t) (tasks app)\<rparr>,
      fs(filename app \<mapsto> json_dump (filter (\<lambda>t. \<not> completed t) (tasks app))))
   \<and> subseq (tasks (fst (clear_completed json_dump app fs))) (tasks app)
   \<and> (\<forall>t. completed t \<longrightarrow> t \<notin> set (tasks (fst (clear_completed json_dump app fs))))
   \<and> (\<forall>t. \<not> completed t \<longrightarrow>
         count_list (tasks (fst (clear_completed json_dump app fs))) t = count_list (tasks app) t)"
proof -
  have c: "\<not> completed t \<Longrightarrow> count_list (filter (\<lambda>t. \<not> completed t) xs) t = count_list xs t"
    for t :: task and xs
    by (induction xs) auto
  show ?thesis
    by (simp add: clear_completed_def save_tasks_def Let_def c)
qed

theorem clear_completed_keeps_open_witness:
  "completed (tasks example_app ! 0)
   \<and> tasks example_app ! 0 \<notin> set (tasks (fst (clear_completed dump_tasks example_app Map.empty)))
   \<and> \<not> completed (tasks example_app ! 1)
   \<and> count_list (tasks (fst (clear_completed dump_tasks example_app Map.empty)))
        (tasks example_app ! 1) = count_list (tasks example_app) (tasks example_app ! 1)
   \<and> count_list (tasks example_app) (tasks example_app ! 1) = 1"
proof -
  have c: "completed (tasks example_app ! 0)" and o: "\<not> completed (tasks example_app ! 1)"
    by (simp_all add: example_app_def example_tasks_def)
  have n: "count_list (tasks example_app) (tasks example_app ! 1) = 1"
    by (simp add: example_app_def example_tasks_def)
  from clear_completed_keeps_open[of dump_tasks example_app Map.empty] c o n
  show ?thesis by blast
qed

text \<open>
  Claim C5. Persistence round trip. For every store and disk, once the list is saved, a
  fresh store built from the same path holds the same list: the same length and at every
  position the same id, description and flag. This holds for every encoder and decoder
  such that the decoder gives back the list the encoder was given, and so for the
  encoder that writes \<^verbatim>\<open>json.dump\<close>'s text with its decoder, for which that is proved
  above.
\<close>

theorem save_then_load_round_trip:
  "(json_load (json_dump (tasks app)) = Decoded (tasks app) \<longrightarrow>
      load_tasks json_load (save_tasks json_dump app fs) (filename app) = Inr (tasks app)
      \<and> init json_load (save_tasks json_dump app fs) (filename app) = Inr app)
   \<and> load_tasks parse_tasks (save_tasks dump_tasks app fs) (filename app) = Inr (tasks app)
   \<and> init parse_tasks (save_tasks dump_tasks app fs) (filename app) = Inr app"
  by (simp add: load_tasks_def init_def save_tasks_def parse_dump_tasks)

theorem save_then_load_round_trip_witness:
  "parse_tasks (dump_tasks (tasks example_app)) = Decoded (tasks example_app)
   \<and> load_tasks parse_tasks (save_tasks dump_tasks example_app Map.empty) (filename example_app)
       = Inr (tasks example_app)
   \<and> init parse_tasks (save_tasks dump_tasks example_app Map.empty) (filename example_app)
       = Inr example_app"
proof -
  have h: "parse_tasks (dump_tasks (tasks example_app)) = Decoded (tasks example_app)"
    by code_simp
  note r = save_then_load_round_trip[where json_load = parse_tasks and json_dump = dump_tasks
      and app = example_app and fs = Map.empty]
  show ?thesis using h r by blast
qed



text \<open>
  Claim C7. Unique ids are not an invariant. From the empty store, adding two entries,
  deleting the one with id 1 and adding a third leaves two different entries that both
  have id 2: \<^verbatim>\<open>add_task\<close> takes the new id from the length of the list, which the
  deletion has lowered.
\<close>

theorem ids_collide_after_delete:
  "run_ops json_dump [Add ''a'', Add ''b'', Delete 1, Add ''c'']
      (\<lparr>filename = fname, tasks = []\<rparr>, fs)
   = (\<lparr>filename = fname,
       tasks = [\<lparr>task_id = 2, description = ''b'', completed = False\<rparr>,
                \<lparr>task_id = 2, description = ''c'', completed = False\<rparr>]\<rparr>,
      fs(fname \<mapsto> json_dump [\<lparr>task_id = 2, description = ''b'', completed = False\<rparr>,
                \<lparr>task_id = 2, description = ''c'', completed = False\<rparr>]))
   \<and> \<not> distinct (map task_id (tasks (fst (run_ops json_dump
         [Add ''a'', Add ''b'', Delete 1, Add ''c''] (\<lparr>filename = fname, tasks = []\<rparr>, fs)))))"
  by (simp add: run_ops_def add_task_def delete_task_def save_tasks_def Let_def)

text \<open>
  Claim C8. The flag \<open>completed\<close> never goes back from true to false. For each of the
  four operations and each entry that is in the list before (at position \<open>i\<close>) and
  after (at position \<open>j\<close>) the operation, the entry keeps its id and its description,
  and when it was completed before it is completed afterwards.
\<close>

theorem completed_never_reverts:
  "i < length (tasks app) \<Longrightarrow> position_after op (tasks app) i = Some j \<Longrightarrow>
   j < length (tasks (fst (apply_op json_dump op (app, fs))))
   \<and> task_id (tasks (fst (apply_op json_dump op (app, fs))) ! j) = task_id (tasks app ! i)
   \<and> description (tasks (fst (apply_op json_dump op (app, fs))) ! j) = description (tasks app ! i)
   \<and> (completed (tasks app ! i) \<longrightarrow> completed (tasks (fst (apply_op json_dump op (app, fs))) ! j))"
proof (cases op)
  case (Add d)
  assume "i < length (tasks app)" "position_after op (tasks app) i = Some j"
  with Add show ?thesis by (simp add: add_task_tasks nth_append)
next
  case (Complete tid)
  assume i: "i < length (tasks app)" and p: "position_after op (tasks app) i = Some j"
  from p Complete have j: "j = i" by simp
  show ?thesis
  proof (cases "\<exists>t\<in>set (tasks app). task_id t = tid")
    case True
    then obtain pre t post where sp: "tasks app = pre @ t # post" "task_id t = tid"
      "\<forall>x\<in>set pre. task_id x \<noteq> tid" by (rule first_match_split)
    have "tasks (fst (snd (mark_complete json_dump tid app fs)))
        = pre @ t\<lparr>completed := True\<rparr> # post"
      by (simp add: mark_complete_split[OF sp(1) sp(3) sp(2)])
    with Complete i j sp(1) show ?thesis
      by (auto simp: nth_append nth_Cons split: nat.splits)
  next
    case False
    then have "mark_complete json_dump tid app fs = (False, app, fs)"
      by (intro mark_complete_no_match) simp
    with Complete i j show ?thesis by simp
  qed
next
  case (Delete tid)
  assume i: "i < length (tasks app)" and p: "position_after op (tasks app) i = Some j"
  show ?thesis
  proof (cases "\<exists>t\<in>set (tasks app). task_id t = tid")
    case True
    then obtain pre t post where sp: "tasks app = pre @ t # post" "task_id t = tid"
      "\<forall>x\<in>set pre. task_id x \<noteq> tid" by (rule first_match_split)
    have k: "first_match tid (tasks app) = length pre"
      using sp by (simp add: first_match_append)
    have after: "tasks (fst (snd (delete_task json_dump tid app fs))) = pre @ post"
      by (simp add: delete_task_split[OF sp(1) sp(3) sp(2)])
    show ?thesis
    proof (cases "i < length pre")
      case True
      with p Delete k have "j = i" by simp
      with True Delete after sp(1) show ?thesis by (simp add: nth_append)
    next
      case False
      with p Delete k have gt: "length pre < i" and j: "j = i - 1"
        by (auto simp: Let_def split: if_splits)
      from gt obtain m where m: "i = Suc (length pre + m)"
        by (metis less_iff_Suc_add add_Suc_right)
      with i sp(1) have "m < length post" by simp
      with m j Delete after sp(1) show ?thesis by (simp add: nth_append)
    qed
  next
    case False
    then have none: "\<forall>x\<in>set (tasks app). task_id x \<noteq> tid" by simp
    then have "first_match tid (tasks app) = length (tasks app)" by (rule first_match_none)
    with p Delete i have "j = i" by simp
    moreover have "delete_task json_dump tid app fs = (False, app, fs)"
      using none by (rule delete_task_no_match)
    ultimately show ?thesis using Delete i by simp
  qed
next
  case Clear
  assume i: "i < length (tasks app)" and p: "position_after op (tasks app) i = Some j"
  from p Clear have o: "\<not> completed (tasks app ! i)"
    and j: "j = length (filter (\<lambda>t. \<not> completed t) (take i (tasks app)))"
    by (auto split: if_splits)
  from filter_nth_position[of i "tasks app" "\<lambda>t. \<not> completed t", OF i o] j Clear
  show ?thesis by (simp add: clear_completed_tasks)
qed

theorem completed_never_reverts_witness:
  "(0::nat) < length (tasks example_app)
   \<and> position_after (Delete 2) (tasks example_app) 0 = Some 0
   \<and> position_after (Complete 2) (tasks example_app) 0 = Some 0
   \<and> position_after (Add ''x'') (tasks example_app) 0 = Some 0
   \<and> completed (tasks example_app ! 0)
   \<and> completed (tasks (fst (apply_op dump_tasks (Delete 2) (example_app, Map.empty))) ! 0)
   \<and> completed (tasks (fst (apply_op dump_tasks (Complete 2) (example_app, Map.empty))) ! 0)
   \<and> completed (tasks (fst (apply_op dump_tasks (Add ''x'') (example_app, Map.empty))) ! 0)"
proof -
  have l: "(0::nat) < length (tasks example_app)"
    by (simp add: example_app_def example_tasks_def)
  have c: "completed (tasks example_app ! 0)"
    by (simp add: example_app_def example_tasks_def)
  have pd: "position_after (Delete 2) (tasks example_app) 0 = Some 0"
    by (simp add: example_app_def example_tasks_def first_match_def)
  have pc: "position_after (Complete 2) (tasks example_app) 0 = Some 0" by simp
  have pa: "position_after (Add ''x'') (tasks example_app) 0 = Some 0" by simp
  note d = completed_never_reverts[OF l pd, of dump_tasks Map.empty]
  note m = completed_never_reverts[OF l pc, of dump_tasks Map.empty]
  note a = completed_never_reverts[OF l pa, of dump_tasks Map.empty]
  show ?thesis using l c pd pc pa d m a by blast
qed

text \<open>
  Claim C9, as stated, fails: \<^verbatim>\<open>main\<close> lowers the case of the whole line
  (\<^verbatim>\<open>input(...).strip().lower()\<close>) before it looks at the command, so the description
  it stores is in lower case. The line \<^verbatim>\<open>a Buy Milk\<close> adds the description
  \<^verbatim>\<open>buy milk\<close>, which is not the text after the first two characters as typed.
\<close>

theorem add_command_case_counterexample:
  "startswith (py_strip ''a Buy Milk'') ''a ''
   \<and> drop 2 (py_strip ''a Buy Milk'') = ''Buy Milk''
   \<and> tasks (fst (snd (main_step dump_tasks ''a Buy Milk''
        \<lparr>filename = ''tasks.json'', tasks = []\<rparr> Map.empty))) =
       [\<lparr>task_id = 1, description = ''buy milk'', completed = False\<rparr>]
   \<and> description (last (tasks (fst (snd (main_step dump_tasks ''a Buy Milk''
        \<lparr>filename = ''tasks.json'', tasks = []\<rparr> Map.empty)))))
       \<noteq> drop 2 (py_strip ''a Buy Milk'')"
  by code_simp

text \<open>
  Claim C9, amended. For every line whose trimmed and lower-cased form starts with
  \<^verbatim>\<open>a\<close> and a space, the iteration prints \<^verbatim>\<open>Task added\<close>, goes on, and adds one entry whose
  description is the text after the first two characters of the trimmed and lower-cased
  line: the case of the typed description is not preserved.
\<close>

theorem add_command_description:
  "startswith (py_lower (py_strip line)) ''a '' \<Longrightarrow>
   main_step json_dump line app fs =
     ([TaskAdded],
      fst (add_task json_dump (drop 2 (py_lower (py_strip line))) app fs),
      snd (add_task json_dump (drop 2 (py_lower (py_strip line))) app fs),
      True)
   \<and> tasks (fst (snd (main_step json_dump line app fs))) =
       tasks app @ [\<lparr>task_id = int (length (tasks app)) + 1,
                      description = drop 2 (py_lower (py_strip line)),
                      completed = False\<rparr>]"
proof -
  assume a: "startswith (py_lower (py_strip line)) ''a ''"
  then have "py_lower (py_strip line) \<noteq> ''h''"
    by (auto simp: startswith_def)
  with a show ?thesis
    by (simp add: main_step_def Let_def add_task_def split: prod.splits)
qed

theorem add_command_description_witness:
  "startswith (py_lower (py_strip ''  A Buy Milk  '')) ''a ''
   \<and> drop 2 (py_lower (py_strip ''  A Buy Milk  '')) = ''buy milk''
   \<and> tasks (fst (snd (main_step dump_tasks ''  A Buy Milk  '' example_app Map.empty))) =
       tasks example_app @ [\<lparr>task_id = int (length (tasks example_app)) + 1,
                      description = drop 2 (py_lower (py_strip ''  A Buy Milk  '')),
                      completed = False\<rparr>]"
proof -
  have h: "startswith (py_lower (py_strip ''  A Buy Milk  '')) ''a ''" by code_simp
  have d: "drop 2 (py_lower (py_strip ''  A Buy Milk  '')) = ''buy milk''" by code_simp
  from add_command_description[OF h, of dump_tasks example_app Map.empty] h d
  show ?thesis by blast
qed

text \<open>
  Claim C10. When some entry has the given id, \<^verbatim>\<open>mark_complete\<close> succeeds, and a second
  call right after it succeeds too and leaves the store and the disk exactly as the first
  call left them.
\<close>

theorem mark_complete_idempotent:
  "(\<exists>t\<in>set (tasks app). task_id t = tid) \<Longrightarrow>
   (case mark_complete json_dump tid app fs of
      (ok, app1, fs1) \<Rightarrow> ok \<and> mark_complete json_dump tid app1 fs1 = (True, app1, fs1))"
proof -
  assume "\<exists>t\<in>set (tasks app). task_id t = tid"
  then obtain pre t post where sp: "tasks app = pre @ t # post" "task_id t = tid"
    "\<forall>x\<in>set pre. task_id x \<noteq> tid" by (rule first_match_split)
  let ?t = "t\<lparr>completed := True\<rparr>"
  let ?app1 = "app\<lparr>tasks := pre @ ?t # post\<rparr>"
  let ?fs1 = "fs(filename app \<mapsto> json_dump (pre @ ?t # post))"
  have first: "mark_complete json_dump tid app fs = (True, ?app1, ?fs1)"
    by (rule mark_complete_split[OF sp(1) sp(3) sp(2)])
  have "tasks ?app1 = pre @ ?t # post" "task_id ?t = tid" using sp(2) by simp_all
  from mark_complete_split[OF this(1) sp(3) this(2), of json_dump ?fs1]
  have second: "mark_complete json_dump tid ?app1 ?fs1 = (True, ?app1, ?fs1)" by simp
  show ?thesis using first second by simp
qed

theorem mark_complete_idempotent_witness:
  "(\<exists>t\<in>set (tasks example_app). task_id t = 2)
   \<and> (case mark_complete dump_tasks 2 example_app Map.empty of
        (ok, app1, fs1) \<Rightarrow> ok \<and> mark_complete dump_tasks 2 app1 fs1 = (True, app1, fs1))"
proof -
  have h: "\<exists>t\<in>set (tasks example_app). task_id t = 2"
    by (simp add: example_app_def example_tasks_def)
  from h mark_complete_idempotent[OF h, of dump_tasks Map.empty] show ?thesis by blast
qed

end
